theory Spec2Isabelle
  imports Main "HOL-Library.Char_ord" "HOL-Library.List_Lexorder"
begin

section \<open>Python strings\<close>

text \<open>
  Strings are lists of ASCII characters. The string methods the loader and the schema
  code call are written out below; case conversion touches the letters A-Z and a-z only.
\<close>

definition lower_char :: "char \<Rightarrow> char" where
  "lower_char c =
     (let n = (of_char c :: nat) in if 65 \<le> n \<and> n \<le> 90 then char_of (n + 32) else c)"

definition upper_char :: "char \<Rightarrow> char" where
  "upper_char c =
     (let n = (of_char c :: nat) in if 97 \<le> n \<and> n \<le> 122 then char_of (n - 32) else c)"

definition lower :: "string \<Rightarrow> string" where
  "lower s = map lower_char s"

definition upper :: "string \<Rightarrow> string" where
  "upper s = map upper_char s"

definition is_space :: "char \<Rightarrow> bool" where
  "is_space c =
     (let n = (of_char c :: nat) in (9 \<le> n \<and> n \<le> 13) \<or> (28 \<le> n \<and> n \<le> 32))"

definition strip_chars :: "(char \<Rightarrow> bool) \<Rightarrow> string \<Rightarrow> string" where
  "strip_chars p s = rev (dropWhile p (rev (dropWhile p s)))"

definition strip :: "string \<Rightarrow> string" where
  "strip s = strip_chars is_space s"

definition strip_quote :: "string \<Rightarrow> string" where
  "strip_quote s = strip_chars (\<lambda>c. c = CHR 0x22) s"

definition replace_char :: "char \<Rightarrow> char \<Rightarrow> string \<Rightarrow> string" where
  "replace_char x y s = map (\<lambda>c. if c = x then y else c) s"

fun starts_with :: "string \<Rightarrow> string \<Rightarrow> bool" where
  "starts_with [] ys = True"
| "starts_with (x # xs) [] = False"
| "starts_with (x # xs) (y # ys) = (x = y \<and> starts_with xs ys)"

text \<open>\<open>py_in k s\<close> is Python's \<open>k in s\<close> on strings: \<open>k\<close> occurs in \<open>s\<close> as a substring.\<close>

fun py_in :: "string \<Rightarrow> string \<Rightarrow> bool" where
  "py_in k [] = (k = [])"
| "py_in k (y # ys) = (starts_with k (y # ys) \<or> py_in k ys)"

text \<open>\<open>any_in ks s\<close> is \<open>any(k in s for k in ks)\<close>.\<close>

fun any_in :: "string list \<Rightarrow> string \<Rightarrow> bool" where
  "any_in [] s = False"
| "any_in (k # ks) s = (py_in k s \<or> any_in ks s)"

section \<open>The type catalogue (create_ncua_tables.py)\<close>

type_synonym catalogue = "string \<rightharpoonup> string"

text \<open>
  The body of the \<open>for row in csv_reader\<close> loop of \<open>_load_column_types_from_file\<close>:
  a row of fewer than three cells is skipped; otherwise the upper-cased field name is
  stored, and one alias: hyphens for underscores when the name has an underscore,
  else underscores for hyphens when it has a hyphen.
\<close>

definition store_row :: "string list \<Rightarrow> catalogue \<Rightarrow> catalogue" where
  "store_row row column_types =
     (case row of
        r0 # r1 # r2 # rest \<Rightarrow>
          (let field_name = strip_quote (strip r0);
               field_type = strip_quote (strip r1);
               ct = column_types(upper field_name \<mapsto> field_type)
           in if CHR ''_'' \<in> set field_name
              then ct(upper (replace_char CHR ''_'' CHR ''-'' field_name) \<mapsto> field_type)
              else if CHR ''-'' \<in> set field_name
              then ct(upper (replace_char CHR ''-'' CHR ''_'' field_name) \<mapsto> field_type)
              else ct)
      | _ \<Rightarrow> column_types)"

fun store_rows :: "string list list \<Rightarrow> catalogue \<Rightarrow> catalogue" where
  "store_rows [] column_types = column_types"
| "store_rows (row # rows) column_types = store_rows rows (store_row row column_types)"

text \<open>
  A description file is \<open>None\<close> when the path does not exist, else the rows the CSV
  reader yields, header first. With no header row \<open>next(csv_reader)\<close> raises
  StopIteration, which the function catches and logs: the catalogue is unchanged.
\<close>

type_synonym desc_file = "string list list option"

definition load_column_types_from_file :: "desc_file \<Rightarrow> catalogue \<Rightarrow> catalogue" where
  "load_column_types_from_file file column_types =
     (case file of
        None \<Rightarrow> column_types
      | Some [] \<Rightarrow> column_types
      | Some (header # rows) \<Rightarrow> store_rows rows column_types)"

definition load_column_types_from_main_dir :: "desc_file list \<Rightarrow> catalogue \<Rightarrow> catalogue" where
  "load_column_types_from_main_dir desc_files column_types =
     fold load_column_types_from_file desc_files column_types"

text \<open>
  The post-processing step at the end of \<open>load_column_type_definitions\<close>: it runs only
  when CU_NUMBER is in the catalogue with a type that lower-cases to \<open>int\<close>.
\<close>

definition cu_number_is_int :: "catalogue \<Rightarrow> bool" where
  "cu_number_is_int column_types =
     (case column_types ''CU_NUMBER'' of None \<Rightarrow> False | Some t \<Rightarrow> lower t = ''int'')"

definition ensure_join_fields :: "catalogue \<Rightarrow> catalogue" where
  "ensure_join_fields column_types =
     (if cu_number_is_int column_types
      then column_types(''CU_NUMBER'' \<mapsto> ''int'', ''CU-NUMBER'' \<mapsto> ''int'',
                        ''CUNUMBER'' \<mapsto> ''int'')
      else column_types)"

text \<open>
  \<open>load_column_type_definitions\<close>: \<open>zip_dir\<close> is \<open>None\<close> when no zip file is found or
  its directory does not exist, else the three description files of that directory;
  \<open>main_dir\<close> holds the three files of the shared directory.
\<close>

definition load_column_type_definitions :: "desc_file list option \<Rightarrow> desc_file list \<Rightarrow> catalogue" where
  "load_column_type_definitions zip_dir main_dir =
     ensure_join_fields
       (case zip_dir of
          None \<Rightarrow> load_column_types_from_main_dir main_dir Map.empty
        | Some zip_desc_files \<Rightarrow>
            if list_ex (\<lambda>f. f \<noteq> None) zip_desc_files
            then fold load_column_types_from_file zip_desc_files Map.empty
            else load_column_types_from_main_dir main_dir Map.empty)"

text \<open>
  The two spellings of a field name, as keys of the catalogue, and the names that use
  one kind of separator only. \<open>field_names\<close> lists the names of the rows that are stored.
\<close>

definition underscore_spelling :: "string \<Rightarrow> string" where
  "underscore_spelling name = upper (replace_char CHR ''-'' CHR ''_'' name)"

definition hyphen_spelling :: "string \<Rightarrow> string" where
  "hyphen_spelling name = upper (replace_char CHR ''_'' CHR ''-'' name)"

definition one_separator :: "string \<Rightarrow> bool" where
  "one_separator name = (CHR ''_'' \<notin> set name \<or> CHR ''-'' \<notin> set name)"

fun field_names :: "string list list \<Rightarrow> string list" where
  "field_names [] = []"
| "field_names ((r0 # r1 # r2 # rest) # rows) = strip_quote (strip r0) # field_names rows"
| "field_names (row # rows) = field_names rows"

section \<open>Column types from the catalogue (create_ncua_tables.py)\<close>

definition critical_join_fields :: "(string \<times> string) list" where
  "critical_join_fields =
     [(''cu_number'', ''INTEGER''), (''join_number'', ''INTEGER''),
      (''cycle_date'', ''TIMESTAMP'')]"

definition high_risk_keywords :: "string list" where
  "high_risk_keywords = [''phone'', ''fax'', ''phonenumber'']"

text \<open>
  A pandas dtype is modelled by its name. The three predicates of \<open>pd.api.types\<close>
  hold for the names of the integer, floating-point and naive datetime64 dtypes.
\<close>

definition is_integer_dtype :: "string \<Rightarrow> bool" where
  "is_integer_dtype d =
     (d \<in> set [''int8'', ''int16'', ''int32'', ''int64'',
                ''uint8'', ''uint16'', ''uint32'', ''uint64'',
                ''Int8'', ''Int16'', ''Int32'', ''Int64'',
                ''UInt8'', ''UInt16'', ''UInt32'', ''UInt64''])"

definition is_float_dtype :: "string \<Rightarrow> bool" where
  "is_float_dtype d =
     (d \<in> set [''float16'', ''float32'', ''float64'', ''float128'', ''Float32'', ''Float64''])"

definition is_datetime64_dtype :: "string \<Rightarrow> bool" where
  "is_datetime64_dtype d = (d = ''datetime64[ns]'')"

definition map_ncua_type :: "string \<Rightarrow> string" where
  "map_ncua_type ncua_type =
     (if ncua_type = ''int'' then ''INTEGER''
      else if ncua_type = ''smallint'' then ''SMALLINT''
      else if ncua_type = ''bigint'' then ''BIGINT''
      else if ncua_type = ''varchar'' then ''TEXT''
      else if ncua_type = ''char'' then ''TEXT''
      else if ncua_type = ''date'' \<or> ncua_type = ''smalldatetime'' then ''TIMESTAMP''
      else if ncua_type = ''decimal'' \<or> ncua_type = ''float'' then ''NUMERIC''
      else ''TEXT'')"

definition get_sql_type_for_column :: "catalogue \<Rightarrow> string \<Rightarrow> string \<Rightarrow> string" where
  "get_sql_type_for_column column_type_definitions column_name pandas_dtype =
     (let col_lower = lower column_name in
      case map_of critical_join_fields col_lower of
        Some t \<Rightarrow> t
      | None \<Rightarrow>
          if any_in high_risk_keywords col_lower then ''TEXT''
          else
            (let column_key = strip (upper column_name) in
             case column_type_definitions column_key of
               Some declared \<Rightarrow> map_ncua_type (lower declared)
             | None \<Rightarrow>
                 if is_integer_dtype pandas_dtype then ''INTEGER''
                 else if is_float_dtype pandas_dtype then ''NUMERIC''
                 else if is_datetime64_dtype pandas_dtype then ''TIMESTAMP''
                 else ''TEXT''))"

text \<open>\<open>re.sub(r'[^a-zA-Z0-9_]', '_', col.lower())\<close>\<close>

definition is_word_char :: "char \<Rightarrow> bool" where
  "is_word_char c =
     (let n = (of_char c :: nat) in
        (97 \<le> n \<and> n \<le> 122) \<or> (65 \<le> n \<and> n \<le> 90) \<or> (48 \<le> n \<and> n \<le> 57) \<or> n = 95)"

definition sql_identifier :: "string \<Rightarrow> string" where
  "sql_identifier col = map (\<lambda>c. if is_word_char c then c else CHR ''_'') (lower col)"

text \<open>
  One turn of the loop of \<open>create_table_from_dataframe\<close> over \<open>df.dtypes.items()\<close>:
  the cleaned name and the SQL type of a column.
\<close>

definition column_definition :: "catalogue \<Rightarrow> string \<times> string \<Rightarrow> string \<times> string" where
  "column_definition column_type_definitions item =
     (case item of (col, dtype) \<Rightarrow>
        (sql_identifier col,
         if any_in high_risk_keywords (lower col) then ''TEXT''
         else get_sql_type_for_column column_type_definitions col dtype))"


section \<open>Schema generation (processor.py)\<close>

datatype error = AttributeError | TypeError

text \<open>
  A cell is a missing value (None or NaN), an integer, or a string. A column is a
  pandas Series: the name of its dtype and its cells. A frame is the list of its
  labelled columns, in order; \<open>df.columns\<close> is the list of labels.
\<close>

datatype cell = Null | IntV int | StrV string

record series =
  dtype :: string
  cells :: "cell list"

type_synonym dataframe = "(string \<times> series) list"

definition columns :: "dataframe \<Rightarrow> string list" where
  "columns df = map fst df"

text \<open>
  \<open>df[col]\<close> is a Series when the label \<open>col\<close> is unique in the frame and a
  DataFrame of all the columns of that label when it is not. A DataFrame has no
  attribute \<open>dtype\<close>, so \<open>df[col].dtype\<close> raises AttributeError then.
\<close>

datatype selection = Series series | Frame "series list"

definition getitem :: "dataframe \<Rightarrow> string \<Rightarrow> selection" where
  "getitem df col =
     (case map snd (filter (\<lambda>item. fst item = col) df) of
        [s] \<Rightarrow> Series s
      | ss \<Rightarrow> Frame ss)"

definition is_na :: "cell \<Rightarrow> bool" where
  "is_na c = (c = Null)"

definition dropna :: "cell list \<Rightarrow> cell list" where
  "dropna cs = filter (\<lambda>c. \<not> is_na c) cs"

text \<open>
  Comparing two integers or two strings works; comparing an integer with a string,
  or anything with None, raises TypeError.
\<close>

fun cell_max :: "cell \<Rightarrow> cell \<Rightarrow> error + cell" where
  "cell_max (IntV a) (IntV b) = Inr (IntV (max a b))"
| "cell_max (StrV a) (StrV b) = Inr (StrV (max a b))"
| "cell_max x y = Inl TypeError"

fun cell_min :: "cell \<Rightarrow> cell \<Rightarrow> error + cell" where
  "cell_min (IntV a) (IntV b) = Inr (IntV (min a b))"
| "cell_min (StrV a) (StrV b) = Inr (StrV (min a b))"
| "cell_min x y = Inl TypeError"

text \<open>\<open>Series.max()\<close> and \<open>Series.min()\<close>; on an empty series pandas returns NaN.\<close>

fun series_max :: "cell list \<Rightarrow> error + cell" where
  "series_max [] = Inr Null"
| "series_max [x] = Inr x"
| "series_max (x # y # ys) =
     (case series_max (y # ys) of Inl e \<Rightarrow> Inl e | Inr m \<Rightarrow> cell_max x m)"

fun series_min :: "cell list \<Rightarrow> error + cell" where
  "series_min [] = Inr Null"
| "series_min [x] = Inr x"
| "series_min (x # y # ys) =
     (case series_min (y # ys) of Inl e \<Rightarrow> Inl e | Inr m \<Rightarrow> cell_min x m)"

fun py_gt :: "cell \<Rightarrow> int \<Rightarrow> error + bool" where
  "py_gt (IntV a) b = Inr (a > b)"
| "py_gt x b = Inl TypeError"

fun py_lt :: "cell \<Rightarrow> int \<Rightarrow> error + bool" where
  "py_lt (IntV a) b = Inr (a < b)"
| "py_lt x b = Inl TypeError"

text \<open>
  The body of the \<open>try\<close> in the integer branch of \<open>_generate_schema\<close>; \<open>or\<close> does not
  evaluate its second operand when the first is true.
\<close>

definition check_values :: "series \<Rightarrow> error + string" where
  "check_values s =
     (let non_null_values = dropna (cells s) in
      if length non_null_values > 0 then
        (case series_max non_null_values of
           Inl e \<Rightarrow> Inl e
         | Inr max_val \<Rightarrow>
             (case series_min non_null_values of
                Inl e \<Rightarrow> Inl e
              | Inr min_val \<Rightarrow>
                  if is_na max_val \<or> is_na min_val then Inr ''INTEGER''
                  else
                    (case py_gt max_val 2147483647 of
                       Inl e \<Rightarrow> Inl e
                     | Inr True \<Rightarrow> Inr ''NUMERIC''
                     | Inr False \<Rightarrow>
                         (case py_lt min_val (- 2147483648) of
                            Inl e \<Rightarrow> Inl e
                          | Inr True \<Rightarrow> Inr ''NUMERIC''
                          | Inr False \<Rightarrow> Inr ''INTEGER''))))
      else Inr ''INTEGER'')"

text \<open>
  The type decision of one column. In the last branch the source measures the longest
  value and assigns TEXT whatever the length is, and also when measuring fails.
\<close>

definition sql_type_of :: "bool \<Rightarrow> series \<Rightarrow> string" where
  "sql_type_of has_large_numbers s =
     (if has_large_numbers then
        (if py_in ''int'' (dtype s) \<or> py_in ''float'' (dtype s) then ''NUMERIC''
         else if py_in ''datetime'' (dtype s) then ''TIMESTAMP''
         else ''TEXT'')
      else
        (if py_in ''int'' (dtype s) then
           (case check_values s of Inl e \<Rightarrow> ''NUMERIC'' | Inr t \<Rightarrow> t)
         else if py_in ''float'' (dtype s) then ''NUMERIC''
         else if py_in ''datetime'' (dtype s) then ''TIMESTAMP''
         else ''TEXT''))"

definition clean_col :: "string \<Rightarrow> string" where
  "clean_col col =
     replace_char CHR ''-'' CHR ''_'' (replace_char CHR '' '' CHR ''_'' (lower (strip col)))"

definition tables_with_large_numbers :: "string list" where
  "tables_with_large_numbers = [''fs220l'', ''fs220d'', ''fs220e'', ''fs220f'']"

text \<open>Decimal digits of a natural number, as an f-string prints it.\<close>

function str_nat :: "nat \<Rightarrow> string" where
  "str_nat n =
     (if n < 10 then [char_of (48 + n)]
      else str_nat (n div 10) @ [char_of (48 + n mod 10)])"
  by pat_completeness auto
termination
  by (relation "measure id") auto

declare str_nat.simps [simp del]

text \<open>
  The first loop of \<open>_generate_schema\<close> counts the cleaned names, for a warning in the
  log only. The second loop names and types the columns: \<open>next_name\<close> is the name it
  gives to a column, with the dictionary \<open>column_index\<close> as it stands after the step.
\<close>

definition next_name :: "(string \<rightharpoonup> nat) \<Rightarrow> string \<Rightarrow> string \<times> (string \<rightharpoonup> nat)" where
  "next_name column_index col =
     (let c = clean_col col in
      case column_index c of
        Some k \<Rightarrow> (c @ ''_'' @ str_nat (k + 1), column_index(c \<mapsto> k + 1))
      | None \<Rightarrow> (c, column_index(c \<mapsto> 0)))"

text \<open>
  The list of (identifier, SQL type) pairs appended so far is \<open>acc\<close>. The first
  column whose \<open>df[col].dtype\<close> raises ends the loop with the error.
\<close>

fun schema_loop ::
  "dataframe \<Rightarrow> bool \<Rightarrow> string list \<Rightarrow> (string \<rightharpoonup> nat) \<Rightarrow> (string \<times> string) list
     \<Rightarrow> error + (string \<times> string) list" where
  "schema_loop df has_large_numbers [] column_index acc = Inr acc"
| "schema_loop df has_large_numbers (col # cols) column_index acc =
     (case next_name column_index col of
        (name, column_index') \<Rightarrow>
          (case getitem df col of
             Frame ss \<Rightarrow> Inl AttributeError
           | Series s \<Rightarrow>
               schema_loop df has_large_numbers cols column_index'
                 (acc @ [(name, sql_type_of has_large_numbers s)])))"

definition schema_columns :: "dataframe \<Rightarrow> string \<Rightarrow> error + (string \<times> string) list" where
  "schema_columns df table_name =
     schema_loop df (any_in tables_with_large_numbers (lower table_name))
       (columns df) Map.empty []"

fun join :: "string \<Rightarrow> string list \<Rightarrow> string" where
  "join sep [] = []"
| "join sep [x] = x"
| "join sep (x # y # ys) = x @ sep @ join sep (y # ys)"

definition column_text :: "string \<times> string \<Rightarrow> string" where
  "column_text c = fst c @ '' '' @ snd c"

definition create_table_statement :: "string \<Rightarrow> (string \<times> string) list \<Rightarrow> string" where
  "create_table_statement table_name cols =
     ''CREATE TABLE IF NOT EXISTS '' @ table_name @ '' (id SERIAL PRIMARY KEY, ''
       @ join '', '' (map column_text cols) @ '');''"

definition generate_schema :: "dataframe \<Rightarrow> string \<Rightarrow> error + string" where
  "generate_schema df table_name =
     (case schema_columns df table_name of
        Inl e \<Rightarrow> Inl e
      | Inr cols \<Rightarrow> Inr (create_table_statement table_name cols))"

text \<open>The \<open>except\<close> branch of the schema step of \<open>_process_file\<close>.\<close>

definition simple_schema :: "dataframe \<Rightarrow> string \<Rightarrow> string" where
  "simple_schema df table_name =
     foldl (\<lambda>schema col. schema @ '', '' @ clean_col col @ '' TEXT'')
       (''CREATE TABLE IF NOT EXISTS '' @ table_name @ '' (id SERIAL PRIMARY KEY'')
       (columns df)
     @ '');''"

text \<open>
  The schema step of \<open>_process_file\<close>: the generated schema, or the simplified one
  when \<open>_generate_schema\<close> raises.
\<close>

definition resolve_schema :: "dataframe \<Rightarrow> string \<Rightarrow> error + string" where
  "resolve_schema df table_name =
     (case generate_schema df table_name of
        Inr schema \<Rightarrow> Inr schema
      | Inl schema_error \<Rightarrow> Inr (simple_schema df table_name))"

text \<open>
  \<open>create_table_from_dataframe\<close> of create_ncua_tables.py reads \<open>df.dtypes.items()\<close>,
  the label and dtype of every column in order, and never the cells.
\<close>

definition dtypes_items :: "dataframe \<Rightarrow> (string \<times> string) list" where
  "dtypes_items df = map (\<lambda>item. (fst item, dtype (snd item))) df"

definition create_table_from_dataframe :: "catalogue \<Rightarrow> dataframe \<Rightarrow> (string \<times> string) list" where
  "create_table_from_dataframe column_type_definitions df =
     map (column_definition column_type_definitions) (dtypes_items df)"

section \<open>Bulk insert (database.py)\<close>

text \<open>
  What a POST to the store comes back with: a response with a status code, or an
  exception raised by the HTTP library (a timeout, a refused connection). The store is
  a function from the number of POST calls made so far to the outcome of the next one.
\<close>

datatype http_result = Status nat | Raised

type_synonym store = "nat \<Rightarrow> http_result"

type_synonym record_dict = "string \<rightharpoonup> cell"

text \<open>
  The loader's trace: every POST with the first row number of its batch, the batch sent
  and the outcome; the success and the failure message of a batch (first and last row
  number); and the retry warning.
\<close>

datatype event =
    Post nat "record_dict list" http_result
  | Success nat nat
  | Failure nat nat
  | Retry nat

record loader =
  calls :: nat
  log :: "event list"

definition batch_size :: nat where
  "batch_size = 50"

text \<open>
  The body of the \<open>try\<close> inside the retry loop: \<open>True\<close> when it reaches a \<open>break\<close>,
  \<open>False\<close> when it raises (the POST itself, or the API error for a status from 400).
\<close>

definition attempt_succeeds :: "http_result \<Rightarrow> bool" where
  "attempt_succeeds response =
     (case response of
        Raised \<Rightarrow> False
      | Status status_code \<Rightarrow>
          if status_code = 204 then True
          else if status_code \<ge> 400 then False
          else True)"

function retry_loop ::
  "store \<Rightarrow> record_dict list \<Rightarrow> nat \<Rightarrow> nat \<Rightarrow> nat \<Rightarrow> loader \<Rightarrow> loader" where
  "retry_loop env batch start_row end_row retry_count st =
     (if retry_count < 3 then
        (let response = env (calls st);
             st1 = \<lparr>calls = calls st + 1, log = log st @ [Post start_row batch response]\<rparr>
         in if attempt_succeeds response
            then st1\<lparr>log := log st1 @ [Success start_row end_row]\<rparr>
            else if retry_count + 1 = 3
            then st1\<lparr>log := log st1 @ [Failure start_row end_row]\<rparr>
            else retry_loop env batch start_row end_row (retry_count + 1)
                   (st1\<lparr>log := log st1 @ [Retry (retry_count + 1)]\<rparr>))
      else st)"
  by pat_completeness auto
termination
  by (relation "measure (\<lambda>(env, batch, start_row, end_row, retry_count, st). 3 - retry_count)")
     auto

declare retry_loop.simps [simp del]

text \<open>\<open>for i in range(0, len(cleaned_records), batch_size)\<close>\<close>

function batch_loop :: "store \<Rightarrow> record_dict list \<Rightarrow> nat \<Rightarrow> loader \<Rightarrow> loader" where
  "batch_loop env cleaned_records i st =
     (if i < length cleaned_records then
        batch_loop env cleaned_records (i + batch_size)
          (retry_loop env (take batch_size (drop i cleaned_records))
             (i + 1) (min (i + batch_size) (length cleaned_records)) 0 st)
      else st)"
  by pat_completeness auto
termination
  by (relation "measure (\<lambda>(env, cleaned_records, i, st). length cleaned_records - i)")
     (auto simp: batch_size_def)

declare batch_loop.simps [simp del]

text \<open>
  A record of \<open>data.to_dict('records')\<close> is the list of its (key, value) items. Cleaning
  builds a new dictionary under the cleaned keys, with every missing value as None.
\<close>

definition clean_record :: "(string \<times> cell) list \<Rightarrow> record_dict" where
  "clean_record record =
     fold (\<lambda>item cleaned_record.
             cleaned_record(clean_col (fst item) \<mapsto> (if is_na (snd item) then Null else snd item)))
       record Map.empty"

definition strip_nul :: "cell \<Rightarrow> cell" where
  "strip_nul v = (case v of StrV s \<Rightarrow> StrV (filter (\<lambda>c. c \<noteq> CHR 0x00) s) | _ \<Rightarrow> v)"

definition clean_records :: "string \<Rightarrow> (string \<times> cell) list list \<Rightarrow> record_dict list" where
  "clean_records table_name records =
     (let cleaned_records = map clean_record records in
      if py_in ''branch_information'' table_name \<or> py_in ''branch'' table_name
      then map (\<lambda>record. map_option strip_nul \<circ> record) cleaned_records
      else cleaned_records)"

text \<open>
  \<open>insert_data\<close> returns None when there are no records, and True at the end of the
  batch loop, whatever the batches did. Nothing in the model of the cleaning raises, so
  the outer handler, which returns False, is never entered.
\<close>

definition insert_data :: "store \<Rightarrow> string \<Rightarrow> (string \<times> cell) list list \<Rightarrow> bool option \<times> loader" where
  "insert_data env table_name records =
     (let table_name' = replace_char CHR ''-'' CHR ''_'' (lower (strip table_name));
          st0 = \<lparr>calls = 0, log = []\<rparr>
      in if records = [] then (None, st0)
         else (Some True, batch_loop env (clean_records table_name' records) 0 st0))"

text \<open>
  The last step of \<open>_process_file\<close>, from the row count found in the table:
  insertion is skipped when the count is positive.
\<close>

datatype load_outcome = Skipped | Inserted "bool option"

definition load_step ::
  "store \<Rightarrow> string \<Rightarrow> (string \<times> cell) list list \<Rightarrow> int \<Rightarrow> load_outcome \<times> loader" where
  "load_step env table_name records record_count =
     (if record_count > 0 then (Skipped, \<lparr>calls = 0, log = []\<rparr>)
      else (case insert_data env table_name records of
              (insert_success, st) \<Rightarrow> (Inserted insert_success, st)))"

text \<open>
  Reading the trace: the outcomes of the POSTs of the batch that starts at row
  \<open>start_row\<close>, in the order they were made.
\<close>

fun posts :: "nat \<Rightarrow> event list \<Rightarrow> http_result list" where
  "posts start_row [] = []"
| "posts start_row (Post s batch response # es) =
     (if s = start_row then response # posts start_row es else posts start_row es)"
| "posts start_row (e # es) = posts start_row es"

section \<open>High-risk column names\<close>

lemma critical_not_high_risk:
  "map_of critical_join_fields s = Some t \<Longrightarrow> \<not> any_in high_risk_keywords s"
  by (auto simp: critical_join_fields_def high_risk_keywords_def split: if_splits)

text \<open>
  C3. A column whose lower-cased name contains phone, fax or phonenumber is typed TEXT
  by \<open>get_sql_type_for_column\<close> and by the loop of \<open>create_table_from_dataframe\<close>,
  whatever the catalogue holds for the name and whatever the dtype of the column is.
\<close>

theorem phone_fax_columns_are_text:
  assumes "any_in high_risk_keywords (lower col)"
  shows "get_sql_type_for_column defs col dt = ''TEXT''
         \<and> column_definition defs (col, dt) = (sql_identifier col, ''TEXT'')"
proof -
  have "map_of critical_join_fields (lower col) = None"
    using assms critical_not_high_risk by (cases "map_of critical_join_fields (lower col)") auto
  with assms show ?thesis
    by (simp add: get_sql_type_for_column_def column_definition_def)
qed

theorem phone_fax_columns_are_text_witness:
  "any_in high_risk_keywords (lower ''Fax_Number'')
   \<and> get_sql_type_for_column [''FAX_NUMBER'' \<mapsto> ''int''] ''Fax_Number'' ''int64'' = ''TEXT''
   \<and> column_definition [''FAX_NUMBER'' \<mapsto> ''int''] (''Fax_Number'', ''int64'')
       = (sql_identifier ''Fax_Number'', ''TEXT'')"
proof -
  have h: "any_in high_risk_keywords (lower ''Fax_Number'')" by code_simp
  from phone_fax_columns_are_text [OF h] h show ?thesis by blast
qed

section \<open>Join keys\<close>

lemma join_key_strings:
  "lower ''CU_NUMBER'' = ''cu_number''"
  "lower ''CU-NUMBER'' = ''cu-number''"
  "lower ''CUNUMBER'' = ''cunumber''"
  "strip (upper ''CU-NUMBER'') = ''CU-NUMBER''"
  "strip (upper ''CUNUMBER'') = ''CUNUMBER''"
  "lower ''int'' = ''int''"
  by code_simp+

lemma join_key_lookups:
  "map_of critical_join_fields ''cu_number'' = Some ''INTEGER''"
  "map_of critical_join_fields ''join_number'' = Some ''INTEGER''"
  "map_of critical_join_fields ''cu-number'' = None"
  "map_of critical_join_fields ''cunumber'' = None"
  "any_in high_risk_keywords ''cu-number'' = False"
  "any_in high_risk_keywords ''cunumber'' = False"
  "map_ncua_type ''int'' = ''INTEGER''"
  by code_simp+

text \<open>
  C8, as amended. The post-processing step acts only when CU_NUMBER is in the catalogue
  with a declared type that lower-cases to int: it then sets CU_NUMBER, CU-NUMBER and
  CUNUMBER to int, which the resolver maps to INTEGER. Otherwise it leaves the catalogue
  as it was loaded. Apart from the catalogue, the resolver returns INTEGER for a column
  whose lower-cased name is cu_number or join_number.
\<close>

theorem join_key_post_processing:
  "(cu_number_is_int ct \<longrightarrow>
      ensure_join_fields ct
        = ct(''CU_NUMBER'' \<mapsto> ''int'', ''CU-NUMBER'' \<mapsto> ''int'', ''CUNUMBER'' \<mapsto> ''int'')
      \<and> get_sql_type_for_column (ensure_join_fields ct) ''CU_NUMBER'' dt = ''INTEGER''
      \<and> get_sql_type_for_column (ensure_join_fields ct) ''CU-NUMBER'' dt = ''INTEGER''
      \<and> get_sql_type_for_column (ensure_join_fields ct) ''CUNUMBER'' dt = ''INTEGER'')
   \<and> (\<not> cu_number_is_int ct \<longrightarrow> ensure_join_fields ct = ct)
   \<and> (lower name = ''cu_number'' \<or> lower name = ''join_number''
        \<longrightarrow> get_sql_type_for_column defs name dt = ''INTEGER'')"
  by (simp add: ensure_join_fields_def get_sql_type_for_column_def join_key_strings
      join_key_lookups)

theorem join_key_post_processing_witness:
  "cu_number_is_int [''CU_NUMBER'' \<mapsto> ''INT'']
   \<and> ensure_join_fields [''CU_NUMBER'' \<mapsto> ''INT'']
       = [''CU_NUMBER'' \<mapsto> ''INT'', ''CU_NUMBER'' \<mapsto> ''int'', ''CU-NUMBER'' \<mapsto> ''int'',
          ''CUNUMBER'' \<mapsto> ''int'']
   \<and> get_sql_type_for_column (ensure_join_fields [''CU_NUMBER'' \<mapsto> ''INT'']) ''CU-NUMBER'' ''object''
       = ''INTEGER''
   \<and> \<not> cu_number_is_int [''CU_NUMBER'' \<mapsto> ''char'']
   \<and> ensure_join_fields [''CU_NUMBER'' \<mapsto> ''char''] = [''CU_NUMBER'' \<mapsto> ''char'']
   \<and> lower ''Join_Number'' = ''join_number''
   \<and> get_sql_type_for_column [''JOIN_NUMBER'' \<mapsto> ''char''] ''Join_Number'' ''object''
       = ''INTEGER''"
proof -
  have h1: "cu_number_is_int [''CU_NUMBER'' \<mapsto> ''INT'']" by code_simp
  have h2: "\<not> cu_number_is_int [''CU_NUMBER'' \<mapsto> ''char'']" by code_simp
  have h3: "lower ''Join_Number'' = ''join_number''" by code_simp
  note a = join_key_post_processing [of "[''CU_NUMBER'' \<mapsto> ''INT'']" "''object''"
      "''Join_Number''" "[''JOIN_NUMBER'' \<mapsto> ''char'']"]
  note b = join_key_post_processing [of "[''CU_NUMBER'' \<mapsto> ''char'']" "''object''"
      "''Join_Number''" "[''JOIN_NUMBER'' \<mapsto> ''char'']"]
  from a b h1 h2 h3 show ?thesis by blast
qed

text \<open>
  A description file that declares CU_NUMBER as char: the step changes nothing, the
  catalogue keeps char under both spellings, and the column CU-NUMBER is typed TEXT.
\<close>

theorem join_key_counterexample:
  "load_column_type_definitions None
       [Some [[''FieldName'', ''FieldType'', ''Description''],
              [''CU_NUMBER'', ''char'', ''Credit union number'']]] ''CU_NUMBER'' = Some ''char''
   \<and> load_column_type_definitions None
       [Some [[''FieldName'', ''FieldType'', ''Description''],
              [''CU_NUMBER'', ''char'', ''Credit union number'']]] ''CU-NUMBER'' = Some ''char''
   \<and> get_sql_type_for_column
        (load_column_type_definitions None
          [Some [[''FieldName'', ''FieldType'', ''Description''],
                 [''CU_NUMBER'', ''char'', ''Credit union number'']]]) ''CU-NUMBER'' ''int64''
       = ''TEXT''"
  by code_simp

section \<open>Integer columns\<close>





lemma series_max_int:
  "series_max cs = Inr m \<Longrightarrow> IntV v \<in> set cs \<Longrightarrow> \<exists>M. m = IntV M \<and> v \<le> M"
proof (induction cs arbitrary: m rule: series_max.induct)
  case 1
  then show ?case by simp
next
  case (2 x)
  then show ?case by auto
next
  case (3 x y ys)
  from "3.prems"(1) obtain m' where m': "series_max (y # ys) = Inr m'" and c: "cell_max x m' = Inr m"
    by (auto split: sum.splits)
  show ?case
  proof (cases "IntV v \<in> set (y # ys)")
    case True
    with "3.IH" m' obtain M' where "m' = IntV M'" "v \<le> M'" by blast
    with c show ?thesis by (cases x) auto
  next
    case False
    with "3.prems"(2) have "x = IntV v" by simp
    with c show ?thesis by (cases m') auto
  qed
qed

lemma series_min_int:
  "series_min cs = Inr m \<Longrightarrow> IntV v \<in> set cs \<Longrightarrow> \<exists>M. m = IntV M \<and> M \<le> v"
proof (induction cs arbitrary: m rule: series_min.induct)
  case 1
  then show ?case by simp
next
  case (2 x)
  then show ?case by auto
next
  case (3 x y ys)
  from "3.prems"(1) obtain m' where m': "series_min (y # ys) = Inr m'" and c: "cell_min x m' = Inr m"
    by (auto split: sum.splits)
  show ?case
  proof (cases "IntV v \<in> set (y # ys)")
    case True
    with "3.IH" m' obtain M' where "m' = IntV M'" "M' \<le> v" by blast
    with c show ?thesis by (cases x) auto
  next
    case False
    with "3.prems"(2) have "x = IntV v" by simp
    with c show ?thesis by (cases m') auto
  qed
qed

lemma check_values_large:
  assumes "IntV v \<in> set (cells s)" and "v > 2147483647 \<or> v < - 2147483648"
    and "check_values s = Inr t"
  shows "t = ''NUMERIC''"
proof -
  let ?nn = "dropna (cells s)"
  from assms(1) have mem: "IntV v \<in> set ?nn" by (simp add: dropna_def is_na_def)
  then have ne: "length ?nn > 0" by (cases ?nn) auto
  from assms(3) ne obtain mx mn where mx: "series_max ?nn = Inr mx" and mn: "series_min ?nn = Inr mn"
    by (auto simp: check_values_def Let_def split: sum.splits)
  from series_max_int [OF mx mem] obtain M where M: "mx = IntV M" "v \<le> M" by blast
  from series_min_int [OF mn mem] obtain N where N: "mn = IntV N" "N \<le> v" by blast
  from assms(2,3) ne mx mn M N show ?thesis
    by (auto simp: check_values_def Let_def is_na_def split: if_splits bool.splits)
qed

lemma large_value_numeric:
  assumes "py_in ''int'' (dtype s)" and "IntV v \<in> set (cells s)"
    and "v > 2147483647 \<or> v < - 2147483648"
  shows "sql_type_of hl s = ''NUMERIC''"
proof (cases "check_values s")
  case (Inl e)
  with assms(1) show ?thesis by (simp add: sql_type_of_def)
next
  case (Inr t)
  with check_values_large [OF assms(2,3)] have "t = ''NUMERIC''" by simp
  with Inr assms(1) show ?thesis by (simp add: sql_type_of_def)
qed

lemma getitem_series:
  assumes "getitem df (fst (df ! i)) = Series s" and "i < length df"
  shows "s = snd (df ! i)"
proof -
  let ?sel = "map snd (filter (\<lambda>item. fst item = fst (df ! i)) df)"
  from assms(1) have "?sel = [s]"
    by (auto simp: getitem_def split: list.splits)
  moreover from assms(2) have "snd (df ! i) \<in> set ?sel" by force
  ultimately show ?thesis by simp
qed

lemma schema_loop_result:
  "schema_loop df hl cols idx acc = Inr out \<Longrightarrow>
     length out = length acc + length cols
     \<and> take (length acc) out = acc
     \<and> (\<forall>i<length cols. \<exists>s. getitem df (cols ! i) = Series s
            \<and> snd (out ! (length acc + i)) = sql_type_of hl s)"
proof (induction cols arbitrary: idx acc)
  case Nil
  then show ?case by simp
next
  case (Cons col cols)
  obtain name idx' where nn: "next_name idx col = (name, idx')" by (cases "next_name idx col")
  from Cons.prems nn obtain s where s: "getitem df col = Series s"
    and rec: "schema_loop df hl cols idx' (acc @ [(name, sql_type_of hl s)]) = Inr out"
    by (auto split: selection.splits)
  from Cons.IH [OF rec] have len: "length out = length acc + 1 + length cols"
    and tk: "take (length acc + 1) out = acc @ [(name, sql_type_of hl s)]"
    and rest: "\<forall>i<length cols. \<exists>s'. getitem df (cols ! i) = Series s'
            \<and> snd (out ! (length acc + 1 + i)) = sql_type_of hl s'"
    by auto
  have "take (length acc) (take (length acc + 1) out) = take (length acc) (acc @ [(name, sql_type_of hl s)])"
    using tk by simp
  then have tk0: "take (length acc) out = acc" by simp
  have "out ! length acc = take (length acc + 1) out ! length acc" by simp
  with tk have at: "out ! length acc = (name, sql_type_of hl s)" by simp
  show ?case
  proof (intro conjI allI impI)
    show "length out = length acc + length (col # cols)" using len by simp
    show "take (length acc) out = acc" by (rule tk0)
    fix i assume "i < length (col # cols)"
    then show "\<exists>s. getitem df ((col # cols) ! i) = Series s
            \<and> snd (out ! (length acc + i)) = sql_type_of hl s"
      using s at rest by (cases i) auto
  qed
qed

text \<open>
  C2, as amended. In the schema that \<open>_generate_schema\<close> returns, a column whose dtype
  name contains int and whose cells include an integer above 2147483647 or below
  -2147483648 is typed NUMERIC, never INTEGER.
\<close>

theorem large_integers_are_numeric:
  assumes "schema_columns df table_name = Inr cols"
    and "i < length df"
    and "py_in ''int'' (dtype (snd (df ! i)))"
    and "IntV v \<in> set (cells (snd (df ! i)))"
    and "v > 2147483647 \<or> v < - 2147483648"
  shows "i < length cols \<and> snd (cols ! i) = ''NUMERIC''"
proof -
  let ?hl = "any_in tables_with_large_numbers (lower table_name)"
  from assms(1) have loop: "schema_loop df ?hl (columns df) Map.empty [] = Inr cols"
    by (simp add: schema_columns_def)
  from schema_loop_result [OF loop] assms(2)
  obtain s where len: "length cols = length df"
    and s: "getitem df (columns df ! i) = Series s" "snd (cols ! i) = sql_type_of ?hl s"
    by (auto simp: columns_def)
  from s(1) assms(2) have "s = snd (df ! i)"
    using getitem_series [of df i s] by (simp add: columns_def)
  with s(2) assms(3-5) len assms(2) show ?thesis
    by (simp add: large_value_numeric)
qed


theorem large_integers_are_numeric_witness:
  "schema_columns
     [(''cu_number'', \<lparr>dtype = ''int64'', cells = [IntV 1, IntV 2]\<rparr>),
      (''acct_010'', \<lparr>dtype = ''int64'', cells = [IntV 5, IntV 4000000000]\<rparr>)] ''fs220_2024_03''
     = Inr [(''cu_number'', ''INTEGER''), (''acct_010'', ''NUMERIC'')]
   \<and> snd ([(''cu_number'', ''INTEGER''), (''acct_010'', ''NUMERIC'')] ! 1) = ''NUMERIC''"
proof -
  let ?df = "[(''cu_number'', \<lparr>dtype = ''int64'', cells = [IntV 1, IntV 2]\<rparr>),
      (''acct_010'', \<lparr>dtype = ''int64'', cells = [IntV 5, IntV 4000000000]\<rparr>)]"
  have a: "schema_columns ?df ''fs220_2024_03''
     = Inr [(''cu_number'', ''INTEGER''), (''acct_010'', ''NUMERIC'')]" by code_simp
  have b: "1 < length ?df" by simp
  have c: "py_in ''int'' (dtype (snd (?df ! 1)))" by code_simp
  have d: "IntV 4000000000 \<in> set (cells (snd (?df ! 1)))" by simp
  have e: "(4000000000::int) > 2147483647 \<or> (4000000000::int) < - 2147483648" by simp
  from large_integers_are_numeric [OF a b c d e] a show ?thesis by blast
qed

text \<open>
  The catalogue path does not look at the cells: \<open>create_table_from_dataframe\<close> types an
  int64 column that holds 4000000000 as INTEGER.
\<close>

theorem large_integers_counterexample:
  "IntV 4000000000 \<in> set (cells \<lparr>dtype = ''int64'', cells = [IntV 5, IntV 4000000000]\<rparr>)
   \<and> create_table_from_dataframe Map.empty
        [(''acct_010'', \<lparr>dtype = ''int64'', cells = [IntV 5, IntV 4000000000]\<rparr>)]
       = [(''acct_010'', ''INTEGER'')]"
  by code_simp

section \<open>The schema step\<close>





section \<open>One attempt, one batch\<close>

lemma attempt_succeeds_iff:
  "attempt_succeeds r \<longleftrightarrow> (\<exists>sc. r = Status sc \<and> sc < 400)"
  by (cases r) (auto simp: attempt_succeeds_def)

lemma retry_loop_step:
  assumes "retry_count < 3"
  shows "retry_loop env batch s e retry_count st =
          (if attempt_succeeds (env (calls st))
           then \<lparr>calls = calls st + 1, log = log st @ [Post s batch (env (calls st)), Success s e]\<rparr>
           else if retry_count = 2
           then \<lparr>calls = calls st + 1, log = log st @ [Post s batch (env (calls st)), Failure s e]\<rparr>
           else retry_loop env batch s e (retry_count + 1)
                  \<lparr>calls = calls st + 1,
                   log = log st @ [Post s batch (env (calls st)), Retry (retry_count + 1)]\<rparr>)"
  using assms by (subst retry_loop.simps) (auto simp: Let_def)

text \<open>
  C10. An attempt succeeds exactly when the POST returns a status below 400. In the
  retry loop such a response ends the batch with the success message after that one
  POST; a status from 400 or an exception raised by the POST uses up one of the three
  tries: the third failure ends the batch with the failure message, an earlier one
  leads to the next try.
\<close>

theorem attempt_success_below_400:
  "(attempt_succeeds r \<longleftrightarrow> (\<exists>sc. r = Status sc \<and> sc < 400))
   \<and> (retry_count < 3 \<and> env (calls st) = r \<longrightarrow>
        retry_loop env batch s e retry_count st =
          (if \<exists>sc. r = Status sc \<and> sc < 400
           then \<lparr>calls = calls st + 1, log = log st @ [Post s batch r, Success s e]\<rparr>
           else if retry_count = 2
           then \<lparr>calls = calls st + 1, log = log st @ [Post s batch r, Failure s e]\<rparr>
           else retry_loop env batch s e (retry_count + 1)
                  \<lparr>calls = calls st + 1,
                   log = log st @ [Post s batch r, Retry (retry_count + 1)]\<rparr>))"
  using retry_loop_step [of retry_count env batch s e st] attempt_succeeds_iff [of r]
  by auto

theorem attempt_success_below_400_witness:
  "attempt_succeeds (Status 204) \<and> attempt_succeeds (Status 301) \<and> attempt_succeeds (Status 100)
   \<and> \<not> attempt_succeeds (Status 400) \<and> \<not> attempt_succeeds Raised
   \<and> retry_loop (\<lambda>k. Status 302) [] 1 50 0 \<lparr>calls = 0, log = []\<rparr>
       = \<lparr>calls = 1, log = [Post 1 [] (Status 302), Success 1 50]\<rparr>
   \<and> retry_loop (\<lambda>k. Status 400) [] 1 50 2 \<lparr>calls = 2, log = []\<rparr>
       = \<lparr>calls = 3, log = [Post 1 [] (Status 400), Failure 1 50]\<rparr>"
proof -
  let ?st = "\<lparr>calls = 0, log = []\<rparr>"
  let ?st2 = "\<lparr>calls = 2, log = []\<rparr>"
  note t = attempt_success_below_400
  from t [of "Status 204"] have 1: "attempt_succeeds (Status 204)" by simp
  from t [of "Status 301"] have 2: "attempt_succeeds (Status 301)" by simp
  from t [of "Status 100"] have 3: "attempt_succeeds (Status 100)" by simp
  from t [of "Status 400"] have 4: "\<not> attempt_succeeds (Status 400)" by simp
  from t [of Raised] have 5: "\<not> attempt_succeeds Raised" by simp
  from t [of "Status 302" 0 "\<lambda>k. Status 302" ?st "[]" 1 50]
  have 6: "retry_loop (\<lambda>k. Status 302) [] 1 50 0 ?st
       = \<lparr>calls = 1, log = [Post 1 [] (Status 302), Success 1 50]\<rparr>" by simp
  from t [of "Status 400" 2 "\<lambda>k. Status 400" ?st2 "[]" 1 50]
  have 7: "retry_loop (\<lambda>k. Status 400) [] 1 50 2 ?st2
       = \<lparr>calls = 3, log = [Post 1 [] (Status 400), Failure 1 50]\<rparr>" by simp
  from 1 2 3 4 5 6 7 show ?thesis by (intro conjI)
qed

section \<open>The batch loop\<close>

lemma posts_append: "posts s (xs @ ys) = posts s xs @ posts s ys"
  by (induction s xs rule: posts.induct) auto

lemma retry_loop_other:
  "s' \<noteq> s \<Longrightarrow> posts s' (log (retry_loop env batch s e rc st)) = posts s' (log st)"
proof (induction env batch s e rc st rule: retry_loop.induct)
  case (1 env batch start_row end_row retry_count st)
  show ?case
  proof (cases "retry_count < 3")
    case True
    show ?thesis
      using "1.IH" [OF True refl refl] "1.prems"
      by (subst retry_loop.simps) (auto simp: Let_def posts_append)
  next
    case False
    then show ?thesis by (subst retry_loop.simps) simp
  qed
qed

lemma retry_loop_log_mono:
  "set (log st) \<subseteq> set (log (retry_loop env batch s e rc st))"
proof (induction env batch s e rc st rule: retry_loop.induct)
  case (1 env batch start_row end_row retry_count st)
  show ?case
  proof (cases "retry_count < 3")
    case True
    show ?thesis
      using "1.IH" [OF True refl refl]
      by (subst retry_loop.simps) (auto simp: Let_def)
  next
    case False
    then show ?thesis by (subst retry_loop.simps) simp
  qed
qed

lemma retry_loop_calls_mono:
  "calls st \<le> calls (retry_loop env batch s e rc st)"
proof (induction env batch s e rc st rule: retry_loop.induct)
  case (1 env batch start_row end_row retry_count st)
  show ?case
  proof (cases "retry_count < 3")
    case True
    show ?thesis
      using "1.IH" [OF True refl refl]
      by (subst retry_loop.simps) (auto simp: Let_def)
  next
    case False
    then show ?thesis by (subst retry_loop.simps) simp
  qed
qed

text \<open>The attempts of one batch, from any retry count below 3.\<close>

lemma retry_loop_attempts:
  "rc < 3 \<Longrightarrow>
   \<exists>P. posts s (log (retry_loop env batch s e rc st)) = posts s (log st) @ P
      \<and> 1 \<le> length P \<and> length P \<le> 3 - rc
      \<and> calls (retry_loop env batch s e rc st) = calls st + length P
      \<and> ((\<forall>r\<in>set P. \<not> attempt_succeeds r) \<longrightarrow>
            length P = 3 - rc \<and> Failure s e \<in> set (log (retry_loop env batch s e rc st)))"
proof (induction env batch s e rc st rule: retry_loop.induct)
  case (1 env batch s e rc st)
  let ?r = "env (calls st)"
  show ?case
  proof (cases "attempt_succeeds ?r")
    case True
    with "1.prems" have "retry_loop env batch s e rc st
        = \<lparr>calls = calls st + 1, log = log st @ [Post s batch ?r, Success s e]\<rparr>"
      by (simp add: retry_loop_step)
    with True "1.prems" show ?thesis
      by (intro exI [of _ "[?r]"]) (simp add: posts_append)
  next
    case False
    show ?thesis
    proof (cases "rc = 2")
      case True
      with False have "retry_loop env batch s e rc st
          = \<lparr>calls = calls st + 1, log = log st @ [Post s batch ?r, Failure s e]\<rparr>"
        by (simp add: retry_loop_step)
      with True show ?thesis
        by (intro exI [of _ "[?r]"]) (simp add: posts_append)
    next
      case rc: False
      let ?st1 = "\<lparr>calls = calls st + 1, log = log st @ [Post s batch ?r, Retry (rc + 1)]\<rparr>"
      let ?st1' = "\<lparr>calls = calls st + 1, log = log st @ [Post s batch ?r]\<rparr>"
      from False rc "1.prems" have eq: "retry_loop env batch s e rc st
          = retry_loop env batch s e (rc + 1) ?st1"
        by (simp add: retry_loop_step)
      have st1: "?st1 = ?st1'\<lparr>log := log ?st1' @ [Retry (rc + 1)]\<rparr>" by simp
      from rc "1.prems" have lt: "rc + 1 < 3" by simp
      have "\<not> (attempt_succeeds ?r)" by (rule False)
      with "1.IH" [OF "1.prems" refl refl _ _ lt] rc
      obtain P where P: "posts s (log (retry_loop env batch s e (rc + 1) ?st1)) = posts s (log ?st1) @ P"
        "1 \<le> length P" "length P \<le> 3 - (rc + 1)"
        "calls (retry_loop env batch s e (rc + 1) ?st1) = calls ?st1 + length P"
        "(\<forall>r\<in>set P. \<not> attempt_succeeds r) \<longrightarrow>
            length P = 3 - (rc + 1) \<and> Failure s e \<in> set (log (retry_loop env batch s e (rc + 1) ?st1))"
        unfolding st1 by (auto simp: Let_def)
      show ?thesis
        unfolding eq using P "1.prems"
        by (intro exI [of _ "?r # P"]) (auto simp: posts_append)
    qed
  qed
qed


lemma batch_loop_log_mono:
  "set (log st) \<subseteq> set (log (batch_loop env rs i st))"
proof (induction env rs i st rule: batch_loop.induct)
  case (1 env rs i st)
  show ?case
  proof (cases "i < length rs")
    case True
    have "set (log st) \<subseteq> set (log (retry_loop env (take batch_size (drop i rs)) (i + 1)
                (min (i + batch_size) (length rs)) 0 st))"
      by (rule retry_loop_log_mono)
    also note "1.IH" [OF True]
    finally show ?thesis
      by (subst batch_loop.simps) (use True in simp)
  next
    case False
    then show ?thesis by (subst batch_loop.simps) simp
  qed
qed

lemma batch_loop_calls_mono:
  "calls st \<le> calls (batch_loop env rs i st)"
proof (induction env rs i st rule: batch_loop.induct)
  case (1 env rs i st)
  show ?case
  proof (cases "i < length rs")
    case True
    from "1.IH" [OF True]
      retry_loop_calls_mono [of st env "take batch_size (drop i rs)" "i + 1"
        "min (i + batch_size) (length rs)" 0]
    show ?thesis
      by (subst batch_loop.simps) (use True in simp)
  next
    case False
    then show ?thesis by (subst batch_loop.simps) simp
  qed
qed

lemma batch_loop_earlier:
  "s \<le> i \<Longrightarrow> posts s (log (batch_loop env rs i st)) = posts s (log st)"
proof (induction env rs i st rule: batch_loop.induct)
  case (1 env rs i st)
  show ?case
  proof (cases "i < length rs")
    case True
    from "1.prems" have "s \<le> i + batch_size" and "s \<noteq> i + 1" by simp_all
    with "1.IH" [OF True] retry_loop_other [of s "i + 1"] show ?thesis
      by (subst batch_loop.simps) (use True in simp)
  next
    case False
    then show ?thesis by (subst batch_loop.simps) simp
  qed
qed



lemma retry_loop_first:
  "\<exists>P. posts s (log (retry_loop env batch s e 0 st)) = posts s (log st) @ P
      \<and> 1 \<le> length P \<and> length P \<le> 3
      \<and> calls st < calls (retry_loop env batch s e 0 st)
      \<and> ((\<forall>r\<in>set P. \<not> attempt_succeeds r) \<longrightarrow>
            length P = 3 \<and> Failure s e \<in> set (log (retry_loop env batch s e 0 st)))"
proof -
  have "(0::nat) < 3" by simp
  from retry_loop_attempts [OF this, of s env batch e st]
  obtain P where P: "posts s (log (retry_loop env batch s e 0 st)) = posts s (log st) @ P"
    "1 \<le> length P" "length P \<le> 3 - 0"
    "calls (retry_loop env batch s e 0 st) = calls st + length P"
    "(\<forall>r\<in>set P. \<not> attempt_succeeds r) \<longrightarrow>
        length P = 3 - 0 \<and> Failure s e \<in> set (log (retry_loop env batch s e 0 st))"
    by blast
  from P(2) have "0 < length P" by linarith
  with P(4) have "calls st < calls (retry_loop env batch s e 0 st)" by linarith
  with P(1,2,3,5) show ?thesis by (intro exI [of _ P]) simp
qed

lemma next_batch_offset: "i < j \<Longrightarrow> (j - i) mod batch_size = 0 \<Longrightarrow> i + batch_size \<le> j"
  unfolding batch_size_def by presburger

lemma next_batch_residue: "i < j \<Longrightarrow> (j - i) mod batch_size = 0 \<Longrightarrow> (j - (i + batch_size)) mod batch_size = 0"
  unfolding batch_size_def by presburger

lemma batch_loop_attempts:
  "i \<le> j \<Longrightarrow> j < length rs \<Longrightarrow> (j - i) mod batch_size = 0 \<Longrightarrow>
   \<exists>P. posts (j + 1) (log (batch_loop env rs i st)) = posts (j + 1) (log st) @ P
      \<and> 1 \<le> length P \<and> length P \<le> 3
      \<and> calls st < calls (batch_loop env rs i st)
      \<and> ((\<forall>r\<in>set P. \<not> attempt_succeeds r) \<longrightarrow>
            length P = 3
            \<and> Failure (j + 1) (min (j + batch_size) (length rs))
                \<in> set (log (batch_loop env rs i st)))"
proof (induction env rs i st rule: batch_loop.induct)
  case (1 env rs i st)
  from "1.prems" have lt: "i < length rs" by simp
  define st1 where "st1 = retry_loop env (take batch_size (drop i rs)) (i + 1)
                (min (i + batch_size) (length rs)) 0 st"
  define st2 where "st2 = batch_loop env rs (i + batch_size) st1"
  have unfold: "batch_loop env rs i st = st2"
    unfolding st2_def st1_def by (subst batch_loop.simps) (use lt in simp)
  show ?case
  proof (cases "j = i")
    case True
    from retry_loop_first [of "i + 1" env "take batch_size (drop i rs)"
        "min (i + batch_size) (length rs)" st]
    obtain P where P: "posts (i + 1) (log st1) = posts (i + 1) (log st) @ P"
      "1 \<le> length P" "length P \<le> 3" "calls st < calls st1"
      "(\<forall>r\<in>set P. \<not> attempt_succeeds r) \<longrightarrow>
          length P = 3 \<and> Failure (i + 1) (min (i + batch_size) (length rs)) \<in> set (log st1)"
      unfolding st1_def by blast
    have "i + 1 \<le> i + batch_size" by (simp add: batch_size_def)
    then have keep: "posts (i + 1) (log st2) = posts (i + 1) (log st1)"
      unfolding st2_def by (rule batch_loop_earlier)
    have mono: "set (log st1) \<subseteq> set (log st2)"
      unfolding st2_def by (rule batch_loop_log_mono)
    have "calls st1 \<le> calls st2"
      unfolding st2_def by (rule batch_loop_calls_mono)
    with P(4) have c: "calls st < calls st2" by simp
    from P(5) mono have f: "(\<forall>r\<in>set P. \<not> attempt_succeeds r) \<longrightarrow>
          length P = 3 \<and> Failure (i + 1) (min (i + batch_size) (length rs)) \<in> set (log st2)"
      by blast
    from keep P(1) have p: "posts (i + 1) (log st2) = posts (i + 1) (log st) @ P" by simp
    have "j + 1 = i + 1" using True by simp
    from p P(2,3) c f show ?thesis
      unfolding unfold True by (intro exI [of _ P] conjI)
  next
    case False
    with "1.prems" have "i < j" by simp
    from \<open>i < j\<close> "1.prems"(3) have ge: "i + batch_size \<le> j"
      by (rule next_batch_offset)
    from \<open>i < j\<close> "1.prems"(3) have m: "(j - (i + batch_size)) mod batch_size = 0"
      by (rule next_batch_residue)
    from \<open>i < j\<close> have "j + 1 \<noteq> i + 1" by simp
    then have other: "posts (j + 1) (log st1) = posts (j + 1) (log st)"
      unfolding st1_def by (rule retry_loop_other)
    have cm: "calls st \<le> calls st1" unfolding st1_def by (rule retry_loop_calls_mono)
    from "1.IH" [OF lt ge "1.prems"(2) m]
    obtain P where P: "posts (j + 1) (log st2) = posts (j + 1) (log st1) @ P"
      "1 \<le> length P" "length P \<le> 3" "calls st1 < calls st2"
      "(\<forall>r\<in>set P. \<not> attempt_succeeds r) \<longrightarrow>
          length P = 3 \<and> Failure (j + 1) (min (j + batch_size) (length rs)) \<in> set (log st2)"
      unfolding st2_def st1_def by blast
    from P(4) cm have c: "calls st < calls st2" by simp
    from P(1) other have p: "posts (j + 1) (log st2) = posts (j + 1) (log st) @ P" by simp
    from p P(2,3,5) c show ?thesis
      unfolding unfold by (intro exI [of _ P] conjI)
  qed
qed

lemma length_clean_records: "length (clean_records table_name records) = length records"
  by (simp add: clean_records_def Let_def)



section \<open>The load step\<close>

text \<open>
  C4. With a positive row count the load step is skipped and no POST is made; POSTs are
  made only when the row count, which is never negative, is zero, and then there are
  some if there is a record to insert.
\<close>

theorem populated_table_is_skipped:
  "(0 < record_count \<longrightarrow>
      load_step env table_name records record_count = (Skipped, \<lparr>calls = 0, log = []\<rparr>))
   \<and> (0 \<le> record_count \<and> 0 < calls (snd (load_step env table_name records record_count))
        \<longrightarrow> record_count = 0)
   \<and> (record_count = 0 \<and> records \<noteq> []
        \<longrightarrow> 0 < calls (snd (load_step env table_name records record_count)))"
proof (intro conjI impI)
  assume "0 < record_count"
  then show "load_step env table_name records record_count = (Skipped, \<lparr>calls = 0, log = []\<rparr>)"
    by (simp add: load_step_def)
next
  assume "0 \<le> record_count \<and> 0 < calls (snd (load_step env table_name records record_count))"
  then show "record_count = 0"
    by (cases "0 < record_count") (auto simp: load_step_def)
next
  assume a: "record_count = 0 \<and> records \<noteq> []"
  define rs where "rs = clean_records (replace_char CHR ''-'' CHR ''_'' (lower (strip table_name))) records"
  from a have "0 < length rs" by (simp add: rs_def length_clean_records)
  from batch_loop_attempts [of 0 0 rs env "\<lparr>calls = 0, log = []\<rparr>"] this
  have "0 < calls (batch_loop env rs 0 \<lparr>calls = 0, log = []\<rparr>)" by auto
  with a show "0 < calls (snd (load_step env table_name records record_count))"
    by (simp add: load_step_def insert_data_def Let_def rs_def)
qed

theorem populated_table_is_skipped_witness:
  "(0::int) < 10
   \<and> load_step (\<lambda>k. Status 201) ''fs220_2024_03'' [[(''cu_number'', IntV 1)]] 10
       = (Skipped, \<lparr>calls = 0, log = []\<rparr>)
   \<and> [[(''cu_number'', IntV 1)]] \<noteq> []
   \<and> 0 < calls (snd (load_step (\<lambda>k. Status 201) ''fs220_2024_03'' [[(''cu_number'', IntV 1)]] 0))"
proof -
  have h: "(0::int) < 10" by simp
  have n: "[[(''cu_number'', IntV 1)]] \<noteq> []" by simp
  from populated_table_is_skipped
         [of 10 "\<lambda>k. Status 201" "''fs220_2024_03''" "[[(''cu_number'', IntV 1)]]"]
       populated_table_is_skipped
         [of 0 "\<lambda>k. Status 201" "''fs220_2024_03''" "[[(''cu_number'', IntV 1)]]"]
       h n
  show ?thesis by simp
qed

section \<open>Column identifiers\<close>

text \<open>
  The identifier of a column: its cleaned name when no earlier column cleans to the
  same name, else the cleaned name, an underscore and the number of earlier columns
  that clean to it.
\<close>

lemma schema_loop_names:
  assumes "schema_loop df hl cols idx acc = Inr out"
    and "\<forall>c. idx c = (if count_list (map clean_col prev) c = 0 then None
                        else Some (count_list (map clean_col prev) c - 1))"
    and "i < length cols"
  shows "fst (out ! (length acc + i)) =
           (let c = clean_col (cols ! i);
                k = count_list (map clean_col (prev @ take i cols)) c
            in if k = 0 then c else c @ ''_'' @ str_nat k)"
  using assms
proof (induction cols arbitrary: idx acc prev i)
  case Nil
  then show ?case by simp
next
  case (Cons col cols)
  define c where "c = clean_col col"
  define k where "k = count_list (map clean_col prev) c"
  define name where "name = (if k = 0 then c else c @ ''_'' @ str_nat k)"
  define idx' where "idx' = idx(c \<mapsto> k)"
  from Cons.prems(2) have nn: "next_name idx col = (name, idx')"
    by (auto simp: next_name_def Let_def c_def k_def name_def idx'_def)
  from Cons.prems(1) nn obtain s where s: "getitem df col = Series s"
    and rec: "schema_loop df hl cols idx' (acc @ [(name, sql_type_of hl s)]) = Inr out"
    by (auto split: selection.splits)
  have inv: "\<forall>d. idx' d = (if count_list (map clean_col (prev @ [col])) d = 0 then None
                        else Some (count_list (map clean_col (prev @ [col])) d - 1))"
    using Cons.prems(2) by (auto simp: idx'_def c_def k_def)
  show ?case
  proof (cases i)
    case 0
    from schema_loop_result [OF rec] have "take (length acc + 1) out = acc @ [(name, sql_type_of hl s)]"
      by simp
    moreover have "out ! length acc = take (length acc + 1) out ! length acc" by simp
    ultimately have "out ! length acc = (name, sql_type_of hl s)" by simp
    with 0 show ?thesis by (simp add: name_def k_def c_def Let_def)
  next
    case (Suc i')
    with Cons.prems(3) have lt: "i' < length cols" by simp
    from Cons.IH [OF rec inv lt] Suc show ?thesis by simp
  qed
qed

lemma column_identifier:
  assumes "schema_columns df table_name = Inr cols" and "i < length df"
  shows "fst (cols ! i) =
           (let c = clean_col (columns df ! i);
                k = count_list (map clean_col (take i (columns df))) c
            in if k = 0 then c else c @ ''_'' @ str_nat k)"
proof -
  from assms(1) have loop: "schema_loop df (any_in tables_with_large_numbers (lower table_name))
      (columns df) Map.empty [] = Inr cols"
    by (simp add: schema_columns_def)
  from assms(2) have "i < length (columns df)" by (simp add: columns_def)
  from schema_loop_names [OF loop _ this, of "[]"] show ?thesis by simp
qed

text \<open>
  C6 does not hold of the code. The second loop of \<open>_generate_schema\<close> suffixes a
  repeated name without looking at the names of the other columns: the labels amt, Amt
  and amt_1 give the identifiers amt, amt_1 and amt_1. When labels collide before they
  reach \<open>_generate_schema\<close>, as the labels \<open>_process_file\<close> has already cleaned do,
  \<open>df[col].dtype\<close> raises and the simplified schema repeats the name unchanged. Labels
  that differ and clean to one name are suffixed in order: amt, amt_1, amt_2.
\<close>

theorem colliding_identifiers:
  "schema_columns
     [(''amt'', \<lparr>dtype = ''int64'', cells = [IntV 1]\<rparr>),
      (''Amt'', \<lparr>dtype = ''int64'', cells = [IntV 2]\<rparr>),
      (''amt_1'', \<lparr>dtype = ''int64'', cells = [IntV 3]\<rparr>)] ''loans_2024_03''
     = Inr [(''amt'', ''INTEGER''), (''amt_1'', ''INTEGER''), (''amt_1'', ''INTEGER'')]
   \<and> resolve_schema
     [(''amt'', \<lparr>dtype = ''int64'', cells = [IntV 1]\<rparr>),
      (''amt'', \<lparr>dtype = ''int64'', cells = [IntV 2]\<rparr>),
      (''amt'', \<lparr>dtype = ''int64'', cells = [IntV 3]\<rparr>)] ''loans_2024_03''
     = Inr ''CREATE TABLE IF NOT EXISTS loans_2024_03 (id SERIAL PRIMARY KEY, amt TEXT, amt TEXT, amt TEXT);''
   \<and> schema_columns
     [(''amt'', \<lparr>dtype = ''int64'', cells = [IntV 1]\<rparr>),
      (''Amt'', \<lparr>dtype = ''int64'', cells = [IntV 2]\<rparr>),
      (''AMT'', \<lparr>dtype = ''int64'', cells = [IntV 3]\<rparr>)] ''loans_2024_03''
     = Inr [(''amt'', ''INTEGER''), (''amt_1'', ''INTEGER''), (''amt_2'', ''INTEGER'')]"
  by code_simp

section \<open>Spellings of a field name\<close>

lemma upper_char_underscore: "upper_char c = CHR ''_'' \<longleftrightarrow> c = CHR ''_''"
proof
  assume a: "upper_char c = CHR ''_''"
  show "c = CHR ''_''"
  proof (cases "97 \<le> (of_char c :: nat) \<and> (of_char c :: nat) \<le> 122")
    case True
    with a have "char_of ((of_char c :: nat) - 32) = CHR ''_''" by (simp add: upper_char_def)
    then have "(of_char (char_of ((of_char c :: nat) - 32) :: char) :: nat) = of_char CHR ''_''" by simp
    then have m: "((of_char c :: nat) - 32) mod 256 = 95" by simp
    from True have "(of_char c :: nat) - 32 < 256" by linarith
    then have "((of_char c :: nat) - 32) mod 256 = of_char c - 32" by (rule mod_less)
    with m True have False by linarith
    then show ?thesis ..
  next
    case False
    with a show ?thesis by (auto simp: upper_char_def Let_def)
  qed
next
  assume "c = CHR ''_''"
  then show "upper_char c = CHR ''_''" by (simp add: upper_char_def)
qed

lemma upper_char_hyphen: "upper_char c = CHR ''-'' \<longleftrightarrow> c = CHR ''-''"
proof
  assume a: "upper_char c = CHR ''-''"
  show "c = CHR ''-''"
  proof (cases "97 \<le> (of_char c :: nat) \<and> (of_char c :: nat) \<le> 122")
    case True
    with a have "char_of ((of_char c :: nat) - 32) = CHR ''-''" by (simp add: upper_char_def)
    then have "(of_char (char_of ((of_char c :: nat) - 32) :: char) :: nat) = of_char CHR ''-''" by simp
    then have m: "((of_char c :: nat) - 32) mod 256 = 45" by simp
    from True have "(of_char c :: nat) - 32 < 256" by linarith
    then have "((of_char c :: nat) - 32) mod 256 = of_char c - 32" by (rule mod_less)
    with m True have False by linarith
    then show ?thesis ..
  next
    case False
    with a show ?thesis by (auto simp: upper_char_def Let_def)
  qed
next
  assume "c = CHR ''-''"
  then show "upper_char c = CHR ''-''" by (simp add: upper_char_def)
qed

lemma hyphen_of_underscore:
  "hyphen_spelling m = replace_char CHR ''_'' CHR ''-'' (underscore_spelling m)"
  by (induction m)
     (auto simp: hyphen_spelling_def underscore_spelling_def replace_char_def upper_def
        upper_char_underscore upper_char_hyphen)

lemma underscore_of_hyphen:
  "underscore_spelling m = replace_char CHR ''-'' CHR ''_'' (hyphen_spelling m)"
  by (induction m)
     (auto simp: hyphen_spelling_def underscore_spelling_def replace_char_def upper_def
        upper_char_underscore upper_char_hyphen)

lemma upper_char_underscore_sym: "CHR ''_'' = upper_char c \<longleftrightarrow> c = CHR ''_''"
  using upper_char_underscore [of c] by auto

lemma upper_char_hyphen_sym: "CHR ''-'' = upper_char c \<longleftrightarrow> c = CHR ''-''"
  using upper_char_hyphen [of c] by auto

lemma no_hyphen_in_underscore_spelling: "CHR ''-'' \<notin> set (underscore_spelling m)"
  by (auto simp: underscore_spelling_def replace_char_def upper_def upper_char_hyphen_sym
      split: if_splits)

lemma no_underscore_in_hyphen_spelling: "CHR ''_'' \<notin> set (hyphen_spelling m)"
  by (auto simp: hyphen_spelling_def replace_char_def upper_def upper_char_underscore_sym
      split: if_splits)

lemma replace_char_absent: "x \<notin> set s \<Longrightarrow> replace_char x y s = s"
  by (induction s) (auto simp: replace_char_def)

lemma spelling_keys:
  "underscore_spelling m \<in> {underscore_spelling n, hyphen_spelling n}
     \<longleftrightarrow> hyphen_spelling m \<in> {underscore_spelling n, hyphen_spelling n}"
proof
  assume "underscore_spelling m \<in> {underscore_spelling n, hyphen_spelling n}"
  then consider "underscore_spelling m = underscore_spelling n"
    | "underscore_spelling m = hyphen_spelling n" by blast
  then show "hyphen_spelling m \<in> {underscore_spelling n, hyphen_spelling n}"
  proof cases
    case 1
    then show ?thesis by (simp add: hyphen_of_underscore [of m] hyphen_of_underscore [of n])
  next
    case 2
    have "hyphen_spelling m = replace_char CHR ''_'' CHR ''-'' (hyphen_spelling n)"
      using 2 by (simp add: hyphen_of_underscore [of m])
    also have "\<dots> = hyphen_spelling n"
      by (rule replace_char_absent) (rule no_underscore_in_hyphen_spelling)
    finally show ?thesis by simp
  qed
next
  assume "hyphen_spelling m \<in> {underscore_spelling n, hyphen_spelling n}"
  then consider "hyphen_spelling m = hyphen_spelling n"
    | "hyphen_spelling m = underscore_spelling n" by blast
  then show "underscore_spelling m \<in> {underscore_spelling n, hyphen_spelling n}"
  proof cases
    case 1
    then show ?thesis by (simp add: underscore_of_hyphen [of m] underscore_of_hyphen [of n])
  next
    case 2
    have "underscore_spelling m = replace_char CHR ''-'' CHR ''_'' (underscore_spelling n)"
      using 2 by (simp add: underscore_of_hyphen [of m])
    also have "\<dots> = underscore_spelling n"
      by (rule replace_char_absent) (rule no_hyphen_in_underscore_spelling)
    finally show ?thesis by simp
  qed
qed

text \<open>A name with one kind of separator is stored under its two spellings.\<close>

lemma store_row_spellings:
  assumes "one_separator (strip_quote (strip r0))"
  shows "\<exists>n v. store_row (r0 # r1 # r2 # rest) ct
           = ct(underscore_spelling n \<mapsto> v, hyphen_spelling n \<mapsto> v)"
proof -
  define n where "n = strip_quote (strip r0)"
  define v where "v = strip_quote (strip r1)"
  from assms have one: "CHR ''_'' \<notin> set n \<or> CHR ''-'' \<notin> set n"
    by (simp add: one_separator_def n_def)
  have row: "store_row (r0 # r1 # r2 # rest) ct =
      (if CHR ''_'' \<in> set n
       then ct(upper n \<mapsto> v, upper (replace_char CHR ''_'' CHR ''-'' n) \<mapsto> v)
       else if CHR ''-'' \<in> set n
       then ct(upper n \<mapsto> v, upper (replace_char CHR ''-'' CHR ''_'' n) \<mapsto> v)
       else ct(upper n \<mapsto> v))"
    by (simp add: store_row_def Let_def n_def v_def)
  show ?thesis
  proof (cases "CHR ''_'' \<in> set n")
    case True
    with one have "CHR ''-'' \<notin> set n" by simp
    then have "underscore_spelling n = upper n"
      by (simp add: underscore_spelling_def replace_char_absent)
    with True row show ?thesis
      by (intro exI [of _ n] exI [of _ v]) (simp add: hyphen_spelling_def)
  next
    case False
    then have h: "hyphen_spelling n = upper n"
      by (simp add: hyphen_spelling_def replace_char_absent)
    show ?thesis
    proof (cases "CHR ''-'' \<in> set n")
      case True
      with False row h show ?thesis
        by (intro exI [of _ n] exI [of _ v]) (auto simp: underscore_spelling_def)
    next
      case nh: False
      then have "underscore_spelling n = upper n"
        by (simp add: underscore_spelling_def replace_char_absent)
      with False nh row h show ?thesis
        by (intro exI [of _ n] exI [of _ v]) simp
    qed
  qed
qed

lemma store_row_agree:
  assumes "\<forall>n\<in>set (field_names [row]). one_separator n"
    and "\<forall>m. ct (underscore_spelling m) = ct (hyphen_spelling m)"
  shows "store_row row ct (underscore_spelling m) = store_row row ct (hyphen_spelling m)"
proof (cases "\<exists>r0 r1 r2 rest. row = r0 # r1 # r2 # rest")
  case True
  then obtain r0 r1 r2 rest where r: "row = r0 # r1 # r2 # rest" by blast
  with assms(1) have "one_separator (strip_quote (strip r0))" by simp
  from store_row_spellings [OF this, of r1 r2 rest ct] r
  obtain n v where s: "store_row row ct = ct(underscore_spelling n \<mapsto> v, hyphen_spelling n \<mapsto> v)"
    by blast
  from spelling_keys [of m n] assms(2) show ?thesis
    unfolding s by (auto simp: fun_upd_def)
next
  case False
  then have "store_row row ct = ct"
    by (auto simp: store_row_def split: list.splits)
  with assms(2) show ?thesis by simp
qed

lemma field_names_Cons: "set (field_names (row # rows)) = set (field_names [row]) \<union> set (field_names rows)"
  by (induction "row # rows" rule: field_names.induct) auto

lemma store_rows_agree:
  "\<forall>n\<in>set (field_names rows). one_separator n \<Longrightarrow>
   \<forall>m. ct (underscore_spelling m) = ct (hyphen_spelling m) \<Longrightarrow>
   store_rows rows ct (underscore_spelling m) = store_rows rows ct (hyphen_spelling m)"
proof (induction rows arbitrary: ct)
  case Nil
  then show ?case by simp
next
  case (Cons row rows)
  from Cons.prems(1) have a: "\<forall>n\<in>set (field_names [row]). one_separator n"
    and b: "\<forall>n\<in>set (field_names rows). one_separator n"
    by (auto simp: field_names_Cons [of row rows])
  have "\<forall>m. store_row row ct (underscore_spelling m) = store_row row ct (hyphen_spelling m)"
    using store_row_agree [OF a Cons.prems(2)] by blast
  from Cons.IH [OF b this] show ?case by simp
qed

text \<open>
  When every stored name of a description file uses one kind of separator, the
  catalogue loaded from it answers alike under the two spellings of any name.
\<close>

lemma one_separator_spellings_agree:
  assumes "\<forall>n\<in>set (field_names rows). one_separator n"
  shows "load_column_types_from_file (Some (header # rows)) Map.empty (underscore_spelling m)
       = load_column_types_from_file (Some (header # rows)) Map.empty (hyphen_spelling m)"
  using store_rows_agree [OF assms, of Map.empty m]
  by (simp add: load_column_types_from_file_def)

text \<open>
  C7 does not hold of the code. A field name with an underscore gets the alias with
  every underscore turned into a hyphen, and no other: for the name ACCT_010-A the
  catalogue holds ACCT_010-A and its hyphen spelling ACCT-010-A, and nothing under its
  underscore spelling ACCT_010_A.
\<close>

theorem mixed_separator_spellings:
  "underscore_spelling ''ACCT_010-A'' = ''ACCT_010_A''
   \<and> hyphen_spelling ''ACCT_010-A'' = ''ACCT-010-A''
   \<and> load_column_types_from_file
     (Some [[''FieldName'', ''FieldType'', ''Description''],
            [''ACCT_010-A'', ''int'', ''Amount'']]) Map.empty (underscore_spelling ''ACCT_010-A'')
       = None
   \<and> load_column_types_from_file
     (Some [[''FieldName'', ''FieldType'', ''Description''],
            [''ACCT_010-A'', ''int'', ''Amount'']]) Map.empty (hyphen_spelling ''ACCT_010-A'')
       = Some ''int''
   \<and> load_column_types_from_file
     (Some [[''FieldName'', ''FieldType'', ''Description''],
            [''ACCT_010-A'', ''int'', ''Amount'']]) Map.empty ''ACCT_010-A'' = Some ''int''"
  by code_simp

end
